theory Spec2Isabelle
  imports Complex_Main
begin

section \<open>Python floats\<close>

text \<open>
  The module \<^verbatim>\<open>fusion_tcv/transforms.py\<close> computes on Python \<^verbatim>\<open>float\<close>s, which are
  IEEE 754 binary64 numbers.  A float is modelled by its value: a finite real, one of the two
  infinities, or not-a-number.  The two signed zeros are identified (the module never divides
  by a zero without raising, and never inspects a sign bit), and a Python \<^verbatim>\<open>int\<close> such as the
  literals \<^verbatim>\<open>0\<close>, \<^verbatim>\<open>1\<close>, \<^verbatim>\<open>2\<close>, \<^verbatim>\<open>50\<close> is identified with the float of the same value.
\<close>

datatype pyfloat = Fin real | PInf | NInf | NaN

datatype pyerror = ZeroDivisionError | ValueError | OverflowError

text \<open>
  The operator \<^verbatim>\<open>**\<close> on two floats returns a float or, for a negative base and a
  non-integral exponent, a \<^verbatim>\<open>complex\<close>.  The components of the complex number play no role
  in this development and are not modelled.
\<close>

datatype pynum = Flt pyfloat | Cplx

subsection \<open>Rounding to binary64\<close>

definition pow2 :: "int \<Rightarrow> real" where
  "pow2 k = 2 powr (of_int k)"

text \<open>Rounding a real to the nearest integer, ties to the even one.\<close>

definition round_half_even :: "real \<Rightarrow> int" where
  "round_half_even m =
     (let f = \<lfloor>m\<rfloor>; d = m - of_int f
      in if d < 1/2 then f else if 1/2 < d then f + 1 else if even f then f else f + 1)"

text \<open>
  The exponent of the unit in the last place of \<open>x\<close>: 52 binary digits below the leading
  one, and never below \<open>2\<^sup>-\<^sup>1\<^sup>0\<^sup>7\<^sup>4\<close> (gradual underflow).
\<close>

definition ulp_exponent :: "real \<Rightarrow> int" where
  "ulp_exponent x = max \<lfloor>log 2 \<bar>x\<bar>\<rfloor> (-1022) - 52"

text \<open>Round to nearest, ties to even, with an unbounded exponent range upwards.\<close>

definition round_real :: "real \<Rightarrow> real" where
  "round_real x =
     of_int (round_half_even (x / pow2 (ulp_exponent x))) * pow2 (ulp_exponent x)"

text \<open>The largest finite binary64 number.\<close>

definition dbl_max :: real where
  "dbl_max = (2 ^ 53 - 1) * pow2 971"

text \<open>The float that an arithmetic operation with exact result \<open>x\<close> delivers.\<close>

definition round_float :: "real \<Rightarrow> pyfloat" where
  "round_float x =
     (let r = round_real x
      in if dbl_max < r then PInf else if r < - dbl_max then NInf else Fin r)"

text \<open>The reals that are binary64 numbers, and the model values that are floats.\<close>

definition is_double :: "real \<Rightarrow> bool" where
  "is_double x \<longleftrightarrow>
     (\<exists>m e::int. \<bar>m\<bar> < 2 ^ 53 \<and> -1074 \<le> e \<and> e \<le> 971 \<and> x = of_int m * pow2 e)"

fun is_float :: "pyfloat \<Rightarrow> bool" where
  "is_float (Fin x) = is_double x"
| "is_float _ = True"

subsection \<open>Comparisons\<close>

text \<open>\<^verbatim>\<open>math.isnan\<close>, and the operators \<^verbatim>\<open><\<close>, \<^verbatim>\<open><=\<close>, \<^verbatim>\<open>==\<close>: every comparison with NaN is false.\<close>

definition isnan :: "pyfloat \<Rightarrow> bool" where
  "isnan x = (x = NaN)"

text \<open>\<^verbatim>\<open>math.isfinite\<close>.\<close>

fun isfinite :: "pyfloat \<Rightarrow> bool" where
  "isfinite (Fin x) = True"
| "isfinite _ = False"

fun py_lt :: "pyfloat \<Rightarrow> pyfloat \<Rightarrow> bool" where
  "py_lt NaN _ = False"
| "py_lt _ NaN = False"
| "py_lt (Fin a) (Fin b) = (a < b)"
| "py_lt (Fin a) PInf = True"
| "py_lt (Fin a) NInf = False"
| "py_lt PInf _ = False"
| "py_lt NInf (Fin b) = True"
| "py_lt NInf PInf = True"
| "py_lt NInf NInf = False"

definition py_eq :: "pyfloat \<Rightarrow> pyfloat \<Rightarrow> bool" where
  "py_eq x y = (x \<noteq> NaN \<and> y \<noteq> NaN \<and> x = y)"

definition py_le :: "pyfloat \<Rightarrow> pyfloat \<Rightarrow> bool" where
  "py_le x y = (py_lt x y \<or> py_eq x y)"

text \<open>
  The builtins \<^verbatim>\<open>min(a, b)\<close> and \<^verbatim>\<open>max(a, b)\<close> keep the first argument unless the second
  is strictly smaller (strictly larger).
\<close>

definition py_min :: "pyfloat \<Rightarrow> pyfloat \<Rightarrow> pyfloat" where
  "py_min a b = (if py_lt b a then b else a)"

definition py_max :: "pyfloat \<Rightarrow> pyfloat \<Rightarrow> pyfloat" where
  "py_max a b = (if py_lt a b then b else a)"

subsection \<open>Arithmetic\<close>

fun fneg :: "pyfloat \<Rightarrow> pyfloat" where
  "fneg (Fin a) = Fin (- a)"
| "fneg PInf = NInf"
| "fneg NInf = PInf"
| "fneg NaN = NaN"

fun fabs :: "pyfloat \<Rightarrow> pyfloat" where
  "fabs (Fin a) = Fin \<bar>a\<bar>"
| "fabs PInf = PInf"
| "fabs NInf = PInf"
| "fabs NaN = NaN"

fun fadd :: "pyfloat \<Rightarrow> pyfloat \<Rightarrow> pyfloat" where
  "fadd NaN _ = NaN"
| "fadd _ NaN = NaN"
| "fadd (Fin a) (Fin b) = round_float (a + b)"
| "fadd PInf NInf = NaN"
| "fadd NInf PInf = NaN"
| "fadd PInf _ = PInf"
| "fadd NInf _ = NInf"
| "fadd (Fin a) PInf = PInf"
| "fadd (Fin a) NInf = NInf"

text \<open>In IEEE arithmetic \<open>x - y\<close> is \<open>x + (- y)\<close>.\<close>

definition fsub :: "pyfloat \<Rightarrow> pyfloat \<Rightarrow> pyfloat" where
  "fsub x y = fadd x (fneg y)"

text \<open>The infinity that carries the sign of a nonzero finite number.\<close>

definition signed_inf :: "real \<Rightarrow> pyfloat" where
  "signed_inf a = (if a = 0 then NaN else if 0 < a then PInf else NInf)"

fun fmul :: "pyfloat \<Rightarrow> pyfloat \<Rightarrow> pyfloat" where
  "fmul NaN _ = NaN"
| "fmul _ NaN = NaN"
| "fmul (Fin a) (Fin b) = round_float (a * b)"
| "fmul (Fin a) PInf = signed_inf a"
| "fmul (Fin a) NInf = signed_inf (- a)"
| "fmul PInf (Fin b) = signed_inf b"
| "fmul NInf (Fin b) = signed_inf (- b)"
| "fmul PInf PInf = PInf"
| "fmul PInf NInf = NInf"
| "fmul NInf PInf = NInf"
| "fmul NInf NInf = PInf"

text \<open>
  True division of floats raises \<^verbatim>\<open>ZeroDivisionError\<close> for every zero divisor, before
  anything else is looked at; otherwise it is the IEEE division.
\<close>

fun fdiv :: "pyfloat \<Rightarrow> pyfloat \<Rightarrow> pyerror + pyfloat" where
  "fdiv x (Fin b) =
     (if b = 0 then Inl ZeroDivisionError
      else case x of
          Fin a \<Rightarrow> Inr (round_float (a / b))
        | PInf \<Rightarrow> Inr (signed_inf b)
        | NInf \<Rightarrow> Inr (signed_inf (- b))
        | NaN \<Rightarrow> Inr NaN)"
| "fdiv NaN _ = Inr NaN"
| "fdiv _ NaN = Inr NaN"
| "fdiv (Fin a) _ = Inr (Fin 0)"
| "fdiv _ _ = Inr NaN"

subsection \<open>The functions of the \<^verbatim>\<open>math\<close> module and the power operator\<close>

text \<open>
  \<^verbatim>\<open>math.exp\<close> and \<^verbatim>\<open>math.log\<close> call the C library; they are taken to be correctly rounded.
  \<^verbatim>\<open>math.exp\<close> raises \<^verbatim>\<open>OverflowError\<close> when the result overflows and returns zero when it
  underflows; \<^verbatim>\<open>math.log\<close> raises \<^verbatim>\<open>ValueError\<close> for every argument that is not positive.
\<close>

fun math_exp :: "pyfloat \<Rightarrow> pyerror + pyfloat" where
  "math_exp NaN = Inr NaN"
| "math_exp PInf = Inr PInf"
| "math_exp NInf = Inr (Fin 0)"
| "math_exp (Fin x) =
     (case round_float (exp x) of
        Fin r \<Rightarrow> Inr (Fin r)
      | _ \<Rightarrow> Inl OverflowError)"

fun math_log :: "pyfloat \<Rightarrow> pyerror + pyfloat" where
  "math_log NaN = Inr NaN"
| "math_log PInf = Inr PInf"
| "math_log NInf = Inl ValueError"
| "math_log (Fin x) = (if x \<le> 0 then Inl ValueError else Inr (round_float (ln x)))"

text \<open>
  The operator \<^verbatim>\<open>**\<close> on floats, following the case analysis of CPython's \<^verbatim>\<open>float_pow\<close>:
  the special cases first, then the C library's \<^verbatim>\<open>pow\<close> on a positive base, whose overflow
  raises \<^verbatim>\<open>OverflowError\<close>.
\<close>

definition is_odd_integer :: "real \<Rightarrow> bool" where
  "is_odd_integer w = (w = of_int \<lfloor>w\<rfloor> \<and> odd \<lfloor>w\<rfloor>)"

definition complex_pow :: "real \<Rightarrow> real \<Rightarrow> pyerror + pynum" where
  "complex_pow x y =
     (case round_float (\<bar>x\<bar> powr y) of
        Fin r \<Rightarrow> Inr Cplx
      | _ \<Rightarrow> Inl OverflowError)"

definition finite_pow :: "real \<Rightarrow> real \<Rightarrow> pyerror + pynum" where
  "finite_pow x y =
     (if x = 0 then (if y < 0 then Inl ZeroDivisionError else Inr (Flt (Fin 0)))
      else if x < 0 \<and> y \<noteq> of_int \<lfloor>y\<rfloor> then complex_pow x y
      else
        let negate_result = (x < 0 \<and> is_odd_integer y)
        in if \<bar>x\<bar> = 1 then Inr (Flt (Fin (if negate_result then - 1 else 1)))
           else case round_float (\<bar>x\<bar> powr y) of
               Fin r \<Rightarrow> Inr (Flt (Fin (if negate_result then - r else r)))
             | _ \<Rightarrow> Inl OverflowError)"

definition float_pow :: "pyfloat \<Rightarrow> pyfloat \<Rightarrow> pyerror + pynum" where
  "float_pow v w =
     (if w = Fin 0 then Inr (Flt (Fin 1))
      else if v = NaN then Inr (Flt NaN)
      else if w = NaN then Inr (Flt (if v = Fin 1 then Fin 1 else NaN))
      else if w = PInf \<or> w = NInf then
        (if fabs v = Fin 1 then Inr (Flt (Fin 1))
         else if (w = PInf) = py_lt (Fin 1) (fabs v) then Inr (Flt PInf)
         else Inr (Flt (Fin 0)))
      else case (v, w) of
          (PInf, Fin y) \<Rightarrow> Inr (Flt (if 0 < y then PInf else Fin 0))
        | (NInf, Fin y) \<Rightarrow>
            Inr (Flt (if 0 < y then (if is_odd_integer y then NInf else PInf) else Fin 0))
        | (Fin x, Fin y) \<Rightarrow> finite_pow x y
        | _ \<Rightarrow> Inr (Flt NaN))"

section \<open>Utility functions\<close>

text \<open>
  \<^verbatim>\<open>return value if math.isnan(value) else max(min_val, min(max_val, value))\<close>
\<close>

definition clip_value :: "pyfloat \<Rightarrow> pyfloat \<Rightarrow> pyfloat \<Rightarrow> pyfloat" where
  "clip_value value min_val max_val =
     (if isnan value then value else py_max min_val (py_min max_val value))"

text \<open>
  \<^verbatim>\<open>return new_min + (value - old_min) * (new_max - new_min) / (old_max - old_min)\<close>
\<close>

definition scale_value ::
  "pyfloat \<Rightarrow> pyfloat \<Rightarrow> pyfloat \<Rightarrow> pyfloat \<Rightarrow> pyfloat \<Rightarrow> pyerror + pyfloat" where
  "scale_value value old_min old_max new_min new_max =
     (case fdiv (fmul (fsub value old_min) (fsub new_max new_min)) (fsub old_max old_min) of
        Inl e \<Rightarrow> Inl e
      | Inr q \<Rightarrow> Inr (fadd new_min q))"

text \<open>
  \<^verbatim>\<open>clipped = clip_value(value, -50, 50); return 1 / (1 + math.exp(-clipped))\<close>
\<close>

definition logistic_value :: "pyfloat \<Rightarrow> pyerror + pyfloat" where
  "logistic_value value =
     (let clipped = clip_value value (Fin (- 50)) (Fin 50)
      in case math_exp (fneg clipped) of
           Inl e \<Rightarrow> Inl e
         | Inr ex \<Rightarrow> fdiv (Fin 1) (fadd (Fin 1) ex))"

text \<open>
  The value that the float operations of \<^verbatim>\<open>1 / (1 + math.exp(-clipped))\<close> deliver for a finite
  \<^verbatim>\<open>clipped\<close> when none of them overflows.
\<close>

definition logistic_real :: "real \<Rightarrow> real" where
  "logistic_real c = round_real (1 / round_real (1 + round_real (exp (- c))))"

section \<open>Transformation classes\<close>

text \<open>
  A list comprehension evaluates its element expression from left to right; the first
  exception ends it.
\<close>

fun map_raise :: "('a \<Rightarrow> pyerror + 'b) \<Rightarrow> 'a list \<Rightarrow> pyerror + 'b list" where
  "map_raise f [] = Inr []"
| "map_raise f (x # xs) =
     (case f x of
        Inl e \<Rightarrow> Inl e
      | Inr y \<Rightarrow> (case map_raise f xs of Inl e \<Rightarrow> Inl e | Inr ys \<Rightarrow> Inr (y # ys)))"

text \<open>The nine subclasses of \<^verbatim>\<open>RewardTransform\<close>, each with the fields its constructor sets.\<close>

datatype RewardTransform =
    EqualReward pyfloat
  | AbsoluteReward
  | NegatedReward
  | PowerReward pyfloat
  | LogReward pyfloat
  | LinearClippedReward pyfloat pyfloat
  | SoftPlusReward pyfloat pyfloat pyfloat
  | NegExpReward pyfloat pyfloat pyfloat
  | SigmoidReward pyfloat pyfloat pyfloat pyfloat

text \<open>The element expressions of the nine \<^verbatim>\<open>__call__\<close> methods.\<close>

definition EqualReward_item :: "pyfloat \<Rightarrow> pyfloat \<Rightarrow> pyerror + pynum" where
  "EqualReward_item nonzero_value error =
     Inr (Flt (if isnan error then error
               else if py_eq error (Fin 0) then Fin 1 else nonzero_value))"

definition AbsoluteReward_item :: "pyfloat \<Rightarrow> pyerror + pynum" where
  "AbsoluteReward_item error = Inr (Flt (fabs error))"

definition NegatedReward_item :: "pyfloat \<Rightarrow> pyerror + pynum" where
  "NegatedReward_item error = Inr (Flt (fneg error))"

definition PowerReward_item :: "pyfloat \<Rightarrow> pyfloat \<Rightarrow> pyerror + pynum" where
  "PowerReward_item exponent error = float_pow error exponent"

definition LogReward_item :: "pyfloat \<Rightarrow> pyfloat \<Rightarrow> pyerror + pynum" where
  "LogReward_item offset error =
     (case math_log (fadd error offset) of Inl e \<Rightarrow> Inl e | Inr r \<Rightarrow> Inr (Flt r))"

definition LinearClippedReward_item :: "pyfloat \<Rightarrow> pyfloat \<Rightarrow> pyfloat \<Rightarrow> pyerror + pynum" where
  "LinearClippedReward_item bad_value good_value error =
     (case scale_value error bad_value good_value (Fin 0) (Fin 1) of
        Inl e \<Rightarrow> Inl e
      | Inr s \<Rightarrow> Inr (Flt (clip_value s (Fin 0) (Fin 1))))"

definition SoftPlusReward_item ::
  "pyfloat \<Rightarrow> pyfloat \<Rightarrow> pyfloat \<Rightarrow> pyfloat \<Rightarrow> pyerror + pynum" where
  "SoftPlusReward_item bad_value good_value sharpness error =
     (case scale_value error bad_value good_value sharpness (Fin 0) of
        Inl e \<Rightarrow> Inl e
      | Inr s \<Rightarrow>
          (case logistic_value s of
             Inl e \<Rightarrow> Inl e
           | Inr l \<Rightarrow> Inr (Flt (clip_value (fmul (Fin 2) l) (Fin 0) (Fin 1)))))"

definition NegExpReward_item ::
  "pyfloat \<Rightarrow> pyfloat \<Rightarrow> pyfloat \<Rightarrow> pyfloat \<Rightarrow> pyerror + pynum" where
  "NegExpReward_item bad_value good_value sharpness error =
     (case scale_value error bad_value good_value sharpness (Fin 0) of
        Inl e \<Rightarrow> Inl e
      | Inr s \<Rightarrow>
          (case math_exp (fneg s) of
             Inl e \<Rightarrow> Inl e
           | Inr x \<Rightarrow> Inr (Flt (clip_value x (Fin 0) (Fin 1)))))"

definition SigmoidReward_item ::
  "pyfloat \<Rightarrow> pyfloat \<Rightarrow> pyfloat \<Rightarrow> pyfloat \<Rightarrow> pyfloat \<Rightarrow> pyerror + pynum" where
  "SigmoidReward_item bad_value good_value low_sharpness high_sharpness error =
     (case scale_value error bad_value good_value low_sharpness high_sharpness of
        Inl e \<Rightarrow> Inl e
      | Inr s \<Rightarrow> (case logistic_value s of Inl e \<Rightarrow> Inl e | Inr l \<Rightarrow> Inr (Flt l)))"

text \<open>\<^verbatim>\<open>__call__\<close>: the list comprehension over \<^verbatim>\<open>errors\<close>.\<close>

fun call :: "RewardTransform \<Rightarrow> pyfloat list \<Rightarrow> pyerror + pynum list" where
  "call (EqualReward nonzero_value) errors = map_raise (EqualReward_item nonzero_value) errors"
| "call AbsoluteReward errors = map_raise AbsoluteReward_item errors"
| "call NegatedReward errors = map_raise NegatedReward_item errors"
| "call (PowerReward exponent) errors = map_raise (PowerReward_item exponent) errors"
| "call (LogReward offset) errors = map_raise (LogReward_item offset) errors"
| "call (LinearClippedReward bad_value good_value) errors =
     map_raise (LinearClippedReward_item bad_value good_value) errors"
| "call (SoftPlusReward bad_value good_value sharpness) errors =
     map_raise (SoftPlusReward_item bad_value good_value sharpness) errors"
| "call (NegExpReward bad_value good_value sharpness) errors =
     map_raise (NegExpReward_item bad_value good_value sharpness) errors"
| "call (SigmoidReward bad_value good_value low_sharpness high_sharpness) errors =
     map_raise (SigmoidReward_item bad_value good_value low_sharpness high_sharpness) errors"

section \<open>Properties of rounding\<close>

subsection \<open>Powers of two and rounding to an integer\<close>

lemma pow2_pos [simp]: "0 < pow2 k"
  by (simp add: pow2_def)

lemma pow2_nonneg [simp]: "0 \<le> pow2 k"
  by (simp add: pow2_def)

lemma pow2_neq0 [simp]: "pow2 k \<noteq> 0"
  by (simp add: pow2_def)

lemma pow2_add: "pow2 (a + b) = pow2 a * pow2 b"
  by (simp add: pow2_def powr_add)

lemma pow2_diff: "pow2 (a - b) = pow2 a / pow2 b"
  by (simp add: pow2_def powr_diff)

lemma pow2_mono: "a \<le> b \<Longrightarrow> pow2 a \<le> pow2 b"
  by (simp add: pow2_def)

lemma pow2_less: "a < b \<Longrightarrow> pow2 a < pow2 b"
  by (simp add: pow2_def)

lemma pow2_nat: "pow2 (int n) = 2 ^ n"
  by (simp add: pow2_def powr_realpow)

lemma pow2_0 [simp]: "pow2 0 = 1"
  by (simp add: pow2_def)

lemma pow2_1 [simp]: "pow2 1 = 2"
  by (simp add: pow2_def)

lemma pow2_numeral [simp]: "pow2 (numeral n) = 2 ^ numeral n"
  using pow2_nat [of "numeral n"] by simp

lemma pow2_neg_numeral [simp]: "pow2 (- numeral n) = 1 / 2 ^ numeral n"
  using pow2_diff [of 0 "numeral n"] by simp

lemma rhe_char:
  "\<bar>m - of_int (round_half_even m)\<bar> < 1/2 \<or>
   (\<bar>m - of_int (round_half_even m)\<bar> = 1/2 \<and> even (round_half_even m))"
  unfolding round_half_even_def Let_def
  by (auto simp: abs_if) linarith+

lemma rhe_eqI:
  assumes "\<bar>m - of_int n\<bar> < 1/2 \<or> (\<bar>m - of_int n\<bar> = 1/2 \<and> even n)"
  shows "round_half_even m = n"
proof -
  define r where "r = round_half_even m"
  have B: "\<bar>m - of_int r\<bar> < 1/2 \<or> (\<bar>m - of_int r\<bar> = 1/2 \<and> even r)"
    unfolding r_def by (rule rhe_char)
  have "\<bar>real_of_int r - of_int n\<bar> \<le> 1"
    using assms B by linarith
  then have "\<bar>r - n\<bar> \<le> 1"
    by linarith
  then consider "r = n" | "r = n + 1" | "r = n - 1"
    by linarith
  then show ?thesis
  proof cases
    case 1
    then show ?thesis by (simp add: r_def)
  next
    case 2
    then have "real_of_int r = of_int n + 1" by simp
    with assms B have "\<bar>m - of_int n\<bar> = 1/2" "\<bar>m - of_int r\<bar> = 1/2" by linarith+
    with assms B have "even n" "even r" by auto
    with 2 show ?thesis by simp
  next
    case 3
    then have "real_of_int r = of_int n - 1" by simp
    with assms B have "\<bar>m - of_int n\<bar> = 1/2" "\<bar>m - of_int r\<bar> = 1/2" by linarith+
    with assms B have "even n" "even r" by auto
    with 3 show ?thesis by simp
  qed
qed

lemma rhe_of_int [simp]: "round_half_even (of_int n) = n"
  by (rule rhe_eqI) simp

lemma rhe_0 [simp]: "round_half_even 0 = 0"
  using rhe_of_int [of 0] by simp

lemma rhe_1 [simp]: "round_half_even 1 = 1"
  using rhe_of_int [of 1] by simp

lemma rhe_numeral [simp]: "round_half_even (numeral n) = numeral n"
  using rhe_of_int [of "numeral n"] by simp

lemma rhe_neg: "round_half_even (- m) = - round_half_even m"
proof (rule rhe_eqI)
  have "\<bar>- m - real_of_int (- round_half_even m)\<bar> = \<bar>m - of_int (round_half_even m)\<bar>"
    by simp
  then show "\<bar>- m - real_of_int (- round_half_even m)\<bar> < 1 / 2 \<or>
    \<bar>- m - real_of_int (- round_half_even m)\<bar> = 1 / 2 \<and> even (- round_half_even m)"
    using rhe_char [of m] by auto
qed

lemma rhe_mono:
  assumes "x \<le> y"
  shows "round_half_even x \<le> round_half_even y"
proof (rule ccontr)
  assume "\<not> ?thesis"
  then have lt: "round_half_even y + 1 \<le> round_half_even x" by simp
  then have ltr: "real_of_int (round_half_even y) + 1 \<le> of_int (round_half_even x)"
    by linarith
  have cx: "\<bar>x - of_int (round_half_even x)\<bar> \<le> 1/2"
    using rhe_char [of x] by linarith
  have cy: "\<bar>y - of_int (round_half_even y)\<bar> \<le> 1/2"
    using rhe_char [of y] by linarith
  from ltr cx cy assms have eq: "real_of_int (round_half_even x) = of_int (round_half_even y) + 1"
    and dx: "\<bar>x - of_int (round_half_even x)\<bar> = 1/2"
    and dy: "\<bar>y - of_int (round_half_even y)\<bar> = 1/2"
    by linarith+
  from dx rhe_char [of x] have "even (round_half_even x)" by linarith
  moreover from dy rhe_char [of y] have "even (round_half_even y)" by linarith
  moreover from eq have "round_half_even x = round_half_even y + 1" by linarith
  ultimately show False by simp
qed

subsection \<open>Rounding to binary64 is monotone and keeps binary64 numbers\<close>

lemma ulp_exponent_ge: "-1074 \<le> ulp_exponent x"
  by (simp add: ulp_exponent_def)

lemma ulp_exponent_minus [simp]: "ulp_exponent (- x) = ulp_exponent x"
  by (simp add: ulp_exponent_def)

lemma round_real_minus: "round_real (- x) = - round_real x"
  by (simp add: round_real_def rhe_neg)

lemma round_real_0 [simp]: "round_real 0 = 0"
  by (simp add: round_real_def)

lemma floor_log2_bounds:
  assumes "x \<noteq> 0"
  shows "pow2 \<lfloor>log 2 \<bar>x\<bar>\<rfloor> \<le> \<bar>x\<bar>" and "\<bar>x\<bar> < pow2 (\<lfloor>log 2 \<bar>x\<bar>\<rfloor> + 1)"
proof -
  have "0 < \<bar>x\<bar>" using assms by simp
  then have "2 powr (of_int \<lfloor>log 2 \<bar>x\<bar>\<rfloor>) \<le> \<bar>x\<bar> \<and> \<bar>x\<bar> < 2 powr (of_int (\<lfloor>log 2 \<bar>x\<bar>\<rfloor> + 1))"
    using floor_log_eq_powr_iff [of "\<bar>x\<bar>" 2 "\<lfloor>log 2 \<bar>x\<bar>\<rfloor>"] by simp
  then show "pow2 \<lfloor>log 2 \<bar>x\<bar>\<rfloor> \<le> \<bar>x\<bar>" and "\<bar>x\<bar> < pow2 (\<lfloor>log 2 \<bar>x\<bar>\<rfloor> + 1)"
    by (simp_all add: pow2_def)
qed

lemma abs_less_pow2_ulp: "\<bar>x\<bar> < pow2 (ulp_exponent x + 53)"
proof (cases "x = 0")
  case True
  then show ?thesis by simp
next
  case False
  have "\<lfloor>log 2 \<bar>x\<bar>\<rfloor> + 1 \<le> ulp_exponent x + 53"
    by (simp add: ulp_exponent_def)
  then have "pow2 (\<lfloor>log 2 \<bar>x\<bar>\<rfloor> + 1) \<le> pow2 (ulp_exponent x + 53)"
    by (rule pow2_mono)
  with floor_log2_bounds(2) [OF False] show ?thesis by linarith
qed

lemma pow2_ulp_le_abs:
  assumes "x \<noteq> 0" and "-1074 < ulp_exponent x"
  shows "pow2 (ulp_exponent x + 52) \<le> \<bar>x\<bar>"
proof -
  from assms(2) have "ulp_exponent x + 52 = \<lfloor>log 2 \<bar>x\<bar>\<rfloor>"
    by (simp add: ulp_exponent_def max_def split: if_splits)
  with floor_log2_bounds(1) [OF assms(1)] show ?thesis by simp
qed

lemma ulp_exponent_mono:
  assumes "0 < x" and "x \<le> y"
  shows "ulp_exponent x \<le> ulp_exponent y"
proof -
  have "log 2 \<bar>x\<bar> \<le> log 2 \<bar>y\<bar>" using assms by simp
  then have "\<lfloor>log 2 \<bar>x\<bar>\<rfloor> \<le> \<lfloor>log 2 \<bar>y\<bar>\<rfloor>" by (rule floor_mono)
  then show ?thesis by (simp add: ulp_exponent_def)
qed

lemma round_real_nonneg:
  assumes "0 \<le> x"
  shows "0 \<le> round_real x"
proof -
  have "0 \<le> x / pow2 (ulp_exponent x)" using assms by simp
  then have "round_half_even 0 \<le> round_half_even (x / pow2 (ulp_exponent x))"
    by (rule rhe_mono)
  then show ?thesis by (simp add: round_real_def)
qed

lemma round_real_le_pow2:
  assumes "0 \<le> x"
  shows "round_real x \<le> pow2 (ulp_exponent x + 53)"
proof -
  let ?u = "ulp_exponent x"
  have "x < pow2 (?u + 53)" using abs_less_pow2_ulp [of x] assms by simp
  then have "x / pow2 ?u \<le> pow2 53"
    by (simp add: pow2_add field_simps)
  then have "round_half_even (x / pow2 ?u) \<le> round_half_even (of_int (2 ^ 53))"
    by (intro rhe_mono) simp
  then have "round_half_even (x / pow2 ?u) \<le> 2 ^ 53" by (simp only: rhe_of_int)
  then have "real_of_int (round_half_even (x / pow2 ?u)) \<le> 2 ^ 53"
    by simp
  then have "real_of_int (round_half_even (x / pow2 ?u)) * pow2 ?u \<le> 2 ^ 53 * pow2 ?u"
    by (intro mult_right_mono) simp_all
  then show ?thesis by (simp add: round_real_def pow2_add mult.commute)
qed

lemma round_real_ge_pow2:
  assumes "0 < x" and "-1074 < ulp_exponent x"
  shows "pow2 (ulp_exponent x + 52) \<le> round_real x"
proof -
  let ?u = "ulp_exponent x"
  have "pow2 (?u + 52) \<le> x" using pow2_ulp_le_abs [of x] assms by simp
  then have "pow2 52 \<le> x / pow2 ?u"
    by (simp add: pow2_add field_simps)
  then have "round_half_even (of_int (2 ^ 52)) \<le> round_half_even (x / pow2 ?u)"
    by (intro rhe_mono) simp
  then have "2 ^ 52 \<le> round_half_even (x / pow2 ?u)" by (simp only: rhe_of_int)
  then have "2 ^ 52 \<le> real_of_int (round_half_even (x / pow2 ?u))"
    by simp
  then have "2 ^ 52 * pow2 ?u \<le> real_of_int (round_half_even (x / pow2 ?u)) * pow2 ?u"
    by (intro mult_right_mono) simp_all
  then show ?thesis by (simp add: round_real_def pow2_add mult.commute)
qed

lemma round_real_mono_pos:
  assumes "0 < x" and "x \<le> y"
  shows "round_real x \<le> round_real y"
proof -
  have le: "ulp_exponent x \<le> ulp_exponent y" using assms by (rule ulp_exponent_mono)
  show ?thesis
  proof (cases "ulp_exponent x = ulp_exponent y")
    case True
    have "x / pow2 (ulp_exponent y) \<le> y / pow2 (ulp_exponent y)"
      using assms by (simp add: divide_right_mono)
    then have "round_half_even (x / pow2 (ulp_exponent y)) \<le> round_half_even (y / pow2 (ulp_exponent y))"
      by (rule rhe_mono)
    then have "real_of_int (round_half_even (x / pow2 (ulp_exponent y))) * pow2 (ulp_exponent y)
        \<le> real_of_int (round_half_even (y / pow2 (ulp_exponent y))) * pow2 (ulp_exponent y)"
      by (intro mult_right_mono) simp_all
    then show ?thesis by (simp add: round_real_def True)
  next
    case False
    with le have lt: "ulp_exponent x + 53 \<le> ulp_exponent y + 52" by simp
    have "-1074 < ulp_exponent y" using lt ulp_exponent_ge [of x] by linarith
    moreover have "0 < y" using assms by simp
    ultimately have "pow2 (ulp_exponent y + 52) \<le> round_real y"
      by (intro round_real_ge_pow2)
    moreover have "round_real x \<le> pow2 (ulp_exponent x + 53)"
      using assms by (intro round_real_le_pow2) simp
    moreover have "pow2 (ulp_exponent x + 53) \<le> pow2 (ulp_exponent y + 52)"
      using lt by (rule pow2_mono)
    ultimately show ?thesis by linarith
  qed
qed

lemma round_real_mono:
  assumes "x \<le> y"
  shows "round_real x \<le> round_real y"
proof -
  consider "0 < x" | "x \<le> 0" "0 \<le> y" | "y < 0" by linarith
  then show ?thesis
  proof cases
    case 1
    then show ?thesis using assms by (rule round_real_mono_pos)
  next
    case 2
    have "0 \<le> round_real (- x)" using 2 by (intro round_real_nonneg) simp
    then have "round_real x \<le> 0" by (simp add: round_real_minus)
    moreover have "0 \<le> round_real y" using 2 by (intro round_real_nonneg)
    ultimately show ?thesis by linarith
  next
    case 3
    have "round_real (- y) \<le> round_real (- x)"
      using 3 assms by (intro round_real_mono_pos) simp_all
    then show ?thesis by (simp add: round_real_minus)
  qed
qed

lemma round_real_double:
  assumes "is_double x"
  shows "round_real x = x"
proof (cases "x = 0")
  case True
  then show ?thesis by simp
next
  case False
  from assms obtain m e :: int
    where m: "\<bar>m\<bar> < 2 ^ 53" and e: "-1074 \<le> e" and x: "x = of_int m * pow2 e"
    by (auto simp: is_double_def)
  let ?u = "ulp_exponent x"
  from m have "\<bar>real_of_int m\<bar> < 2 ^ 53"
    by (metis of_int_abs of_int_less_numeral_power_cancel_iff)
  then have "\<bar>real_of_int m\<bar> * pow2 e < 2 ^ 53 * pow2 e"
    by (intro mult_strict_right_mono) simp_all
  then have xlt: "\<bar>x\<bar> < pow2 (e + 53)"
    by (simp add: x abs_mult pow2_add mult.commute)
  have ue: "?u \<le> e"
  proof (rule ccontr)
    assume "\<not> ?u \<le> e"
    then have lt: "e + 53 \<le> ?u + 52" by simp
    then have "-1074 < ?u" using e by linarith
    with False have "pow2 (?u + 52) \<le> \<bar>x\<bar>" by (intro pow2_ulp_le_abs)
    moreover have "pow2 (e + 53) \<le> pow2 (?u + 52)" using lt by (rule pow2_mono)
    ultimately show False using xlt by linarith
  qed
  define k where "k = nat (e - ?u)"
  have ek: "e = ?u + int k" using ue by (simp add: k_def)
  have "x / pow2 ?u = of_int m * (pow2 (int k) * pow2 ?u) / pow2 ?u"
    using ek x by (metis add.commute pow2_add)
  also have "\<dots> = of_int (m * 2 ^ k)"
    by (simp add: pow2_nat)
  finally have "x / pow2 ?u = of_int (m * 2 ^ k)" .
  then have "round_half_even (x / pow2 ?u) = m * 2 ^ k"
    by (simp only: rhe_of_int)
  then have "round_real x = of_int (m * 2 ^ k) * pow2 ?u"
    by (simp add: round_real_def)
  also have "\<dots> = of_int m * (pow2 (int k) * pow2 ?u)"
    by (simp add: pow2_nat)
  also have "\<dots> = x"
    using ek x by (metis add.commute pow2_add)
  finally show ?thesis .
qed

lemma is_double_minus [simp]: "is_double (- x) = is_double x"
proof -
  have "is_double (- y)" if "is_double y" for y
  proof -
    from that obtain m e :: int
      where "\<bar>m\<bar> < 2 ^ 53" "-1074 \<le> e" "e \<le> 971" "y = of_int m * pow2 e"
      by (auto simp: is_double_def)
    then have "\<bar>- m\<bar> < 2 ^ 53 \<and> -1074 \<le> e \<and> e \<le> 971 \<and> - y = of_int (- m) * pow2 e"
      by simp
    then show ?thesis unfolding is_double_def by blast
  qed
  from this [of x] this [of "- x"] show ?thesis by auto
qed

lemma is_double_0 [simp]: "is_double 0"
  unfolding is_double_def by (rule exI [of _ 0], rule exI [of _ 0]) simp



section \<open>Properties of the float operations\<close>

subsection \<open>Binary64 numbers and their rounding\<close>

lemma is_double_of_int: "\<bar>m\<bar> < 2 ^ 53 \<Longrightarrow> is_double (of_int m)"
  unfolding is_double_def by (rule exI [of _ m], rule exI [of _ 0]) simp

lemma is_double_1 [simp]: "is_double 1"
  using is_double_of_int [of 1] by simp

lemma is_double_numeral [simp]: "(numeral n :: int) < 2 ^ 53 \<Longrightarrow> is_double (numeral n)"
  using is_double_of_int [of "numeral n"] by simp

lemma is_double_pow2:
  assumes "-1074 \<le> k" and "k \<le> 1023"
  shows "is_double (pow2 k)"
proof (cases "k \<le> 971")
  case True
  then have "\<bar>1::int\<bar> < 2 ^ 53 \<and> -1074 \<le> k \<and> k \<le> 971 \<and> pow2 k = of_int 1 * pow2 k"
    using assms by simp
  then show ?thesis unfolding is_double_def by blast
next
  case False
  then have "\<bar>2 ^ 52 :: int\<bar> < 2 ^ 53 \<and> -1074 \<le> k - 52 \<and> k - 52 \<le> 971
      \<and> pow2 k = of_int (2 ^ 52) * pow2 (k - 52)"
    using assms pow2_add [of 52 "k - 52"] by simp
  then show ?thesis unfolding is_double_def by blast
qed

lemma pow2_neg_1 [simp]: "pow2 (- 1) = 1 / 2"
  using pow2_diff [of 0 1] by simp

lemma is_double_half [simp]: "is_double (1 / 2)"
  using is_double_pow2 [of "-1"] by simp

lemma is_double_dbl_max: "is_double dbl_max"
proof -
  have "\<bar>2 ^ 53 - 1 :: int\<bar> < 2 ^ 53 \<and> -1074 \<le> (971::int) \<and> (971::int) \<le> 971
      \<and> dbl_max = of_int (2 ^ 53 - 1) * pow2 971"
    by (simp add: dbl_max_def)
  then show ?thesis unfolding is_double_def by blast
qed

lemma dbl_max_pos: "0 < dbl_max"
  by (simp add: dbl_max_def)

lemma is_double_le_dbl_max:
  assumes "is_double x"
  shows "\<bar>x\<bar> \<le> dbl_max"
proof -
  from assms obtain m e :: int
    where m: "\<bar>m\<bar> < 2 ^ 53" and e: "e \<le> 971" and x: "x = of_int m * pow2 e"
    by (auto simp: is_double_def)
  from m have "\<bar>m\<bar> \<le> 2 ^ 53 - 1" by simp
  then have "real_of_int \<bar>m\<bar> \<le> of_int (2 ^ 53 - 1)" by (simp only: of_int_le_iff)
  then have "\<bar>real_of_int m\<bar> \<le> 2 ^ 53 - 1" by simp
  moreover have "pow2 e \<le> pow2 971" using e by (rule pow2_mono)
  ultimately have "\<bar>real_of_int m\<bar> * pow2 e \<le> (2 ^ 53 - 1) * pow2 971"
    by (intro mult_mono) simp_all
  then show ?thesis by (simp add: x abs_mult dbl_max_def)
qed

lemma round_float_finite:
  assumes "\<bar>x\<bar> \<le> dbl_max"
  shows "round_float x = Fin (round_real x)"
proof -
  have "round_real x \<le> round_real dbl_max" using assms by (intro round_real_mono) simp
  moreover have "round_real (- dbl_max) \<le> round_real x" using assms by (intro round_real_mono) simp
  ultimately show ?thesis
    by (simp add: round_float_def round_real_minus round_real_double is_double_dbl_max)
qed

lemma round_float_double: "is_double x \<Longrightarrow> round_float x = Fin x"
  by (simp add: round_float_finite is_double_le_dbl_max round_real_double)

lemma round_float_0 [simp]: "round_float 0 = Fin 0"
  by (simp add: round_float_double)

lemma round_float_1 [simp]: "round_float 1 = Fin 1"
  by (simp add: round_float_double)

lemma round_float_numeral [simp]:
  "(numeral n :: int) < 2 ^ 53 \<Longrightarrow> round_float (numeral n) = Fin (numeral n)"
  by (simp add: round_float_double)

lemma round_float_minus: "round_float (- x) = fneg (round_float x)"
  using dbl_max_pos by (auto simp: round_float_def round_real_minus Let_def)

lemma round_float_half [simp]: "round_float (1 / 2) = Fin (1 / 2)"
  by (simp add: round_float_double)

subsection \<open>Differences of distinct floats do not vanish\<close>

lemma is_double_multiple:
  assumes "is_double x"
  shows "\<exists>k::int. x = of_int k * pow2 (- 1074)"
proof -
  from assms obtain m e :: int
    where e: "-1074 \<le> e" and x: "x = of_int m * pow2 e"
    by (auto simp: is_double_def)
  define n where "n = nat (e + 1074)"
  have "e = int n + (- 1074)" using e by (simp add: n_def)
  then have "pow2 e = 2 ^ n * pow2 (- 1074)"
    by (metis pow2_add pow2_nat)
  then have "x = of_int (m * 2 ^ n) * pow2 (- 1074)"
    by (simp add: x)
  then show ?thesis by blast
qed

lemma round_real_pos:
  assumes "pow2 (- 1074) \<le> x"
  shows "0 < round_real x"
proof -
  have "round_real (pow2 (- 1074)) \<le> round_real x"
    using assms by (rule round_real_mono)
  moreover have "round_real (pow2 (- 1074)) = pow2 (- 1074)"
    by (intro round_real_double is_double_pow2) simp_all
  moreover have "0 < pow2 (- 1074)" by (rule pow2_pos)
  ultimately show ?thesis by linarith
qed

lemma round_real_diff_nonzero:
  assumes "is_double x" and "is_double y" and "x \<noteq> y"
  shows "round_real (x - y) \<noteq> 0"
proof -
  from is_double_multiple [OF assms(1)] is_double_multiple [OF assms(2)]
  obtain k l :: int where x: "x = of_int k * pow2 (- 1074)" and y: "y = of_int l * pow2 (- 1074)"
    by blast
  have d: "x - y = of_int (k - l) * pow2 (- 1074)"
    by (simp add: x y algebra_simps)
  from assms(3) x y have "k \<noteq> l" by auto
  then consider "1 \<le> k - l" | "1 \<le> l - k" by linarith
  then show ?thesis
  proof cases
    case 1
    then have "1 \<le> real_of_int (k - l)" by linarith
    then have "1 * pow2 (- 1074) \<le> of_int (k - l) * pow2 (- 1074)"
      by (intro mult_right_mono) simp_all
    then have "pow2 (- 1074) \<le> x - y" by (simp add: d)
    then show ?thesis using round_real_pos [of "x - y"] by simp
  next
    case 2
    then have "1 \<le> real_of_int (l - k)" by linarith
    then have "1 * pow2 (- 1074) \<le> of_int (l - k) * pow2 (- 1074)"
      by (intro mult_right_mono) simp_all
    then have "pow2 (- 1074) \<le> - (x - y)" by (simp add: d algebra_simps)
    then have "0 < round_real (- (x - y))" by (rule round_real_pos)
    then have "0 < - round_real (x - y)" by (simp only: round_real_minus)
    then show ?thesis by simp
  qed
qed

lemma round_float_eq_0_iff: "round_float x = Fin 0 \<longleftrightarrow> round_real x = 0"
  using dbl_max_pos by (auto simp: round_float_def Let_def)

lemma fsub_eq_0_iff:
  assumes "is_float x" and "is_float y"
  shows "fsub x y = Fin 0 \<longleftrightarrow> x = y \<and> isfinite x"
proof (cases x; cases y)
  fix a b assume xy: "x = Fin a" "y = Fin b"
  with assms have "is_double a" "is_double b" by simp_all
  then have "round_real (a - b) = 0 \<longleftrightarrow> a = b"
    using round_real_diff_nonzero [of a b] by auto
  then show ?thesis by (simp add: xy fsub_def round_float_eq_0_iff)
qed (simp_all add: fsub_def)

lemma scale_value_NaN:
  "scale_value NaN old_min old_max new_min new_max =
     (if fsub old_max old_min = Fin 0 then Inl ZeroDivisionError else Inr NaN)"
proof -
  have "fdiv NaN d = (if d = Fin 0 then Inl ZeroDivisionError else Inr NaN)" for d
    by (cases d) simp_all
  moreover have "fadd new_min NaN = NaN" by (cases new_min) simp_all
  ultimately show ?thesis by (simp add: scale_value_def fsub_def)
qed

lemma logistic_value_NaN: "logistic_value NaN = Inr NaN"
  by (simp add: logistic_value_def clip_value_def isnan_def)

subsection \<open>List comprehensions\<close>







subsection \<open>The logistic function on clipped arguments\<close>

lemma pow2_le_dbl_max: "k \<le> 1023 \<Longrightarrow> pow2 k \<le> dbl_max"
proof -
  assume k: "k \<le> 1023"
  have "pow2 k \<le> pow2 1023" using k by (rule pow2_mono)
  moreover have "\<bar>pow2 1023\<bar> \<le> dbl_max"
    by (intro is_double_le_dbl_max is_double_pow2) simp_all
  ultimately show ?thesis by simp
qed

lemma round_real_pow2: "-1074 \<le> k \<Longrightarrow> k \<le> 1023 \<Longrightarrow> round_real (pow2 k) = pow2 k"
  by (intro round_real_double is_double_pow2)

lemma round_real_1 [simp]: "round_real 1 = 1"
  by (rule round_real_double) simp

lemma round_float_bounded:
  assumes "\<bar>x\<bar> \<le> pow2 k" and "-1074 \<le> k" and "k \<le> 1023"
  shows "round_float x = Fin (round_real x)" and "\<bar>round_real x\<bar> \<le> pow2 k"
proof -
  have "pow2 k \<le> dbl_max" using assms(3) by (rule pow2_le_dbl_max)
  with assms(1) show "round_float x = Fin (round_real x)"
    by (intro round_float_finite) simp
  have "round_real x \<le> round_real (pow2 k)"
    using assms(1) by (intro round_real_mono) simp
  moreover have "round_real (- pow2 k) \<le> round_real x"
    using assms(1) by (intro round_real_mono) simp
  ultimately show "\<bar>round_real x\<bar> \<le> pow2 k"
    using round_real_pow2 [OF assms(2,3)] by (simp add: round_real_minus)
qed

lemma exp_50_le: "exp (50::real) \<le> pow2 80"
proof -
  have "exp (50::real) = exp (of_nat 50 * 1)" by simp
  also have "\<dots> = exp 1 ^ 50" by (rule exp_of_nat_mult)
  also have "\<dots> \<le> 3 ^ 50" by (intro power_mono exp_le) simp
  also have "\<dots> \<le> pow2 80" by simp
  finally show ?thesis .
qed

lemma exp_50_ge: "pow2 54 \<le> exp (50::real)"
proof -
  have "(1 + 1 / of_nat 2) ^ 2 \<le> exp (1::real)"
    by (rule exp_ge_one_plus_x_over_n_power_n) simp_all
  then have e: "9 / 4 \<le> exp (1::real)" by (simp add: power2_eq_square)
  have "pow2 54 \<le> (9 / 4 :: real) ^ 50" by (simp add: power_divide)
  also have "\<dots> \<le> exp 1 ^ 50" using e by (intro power_mono) simp_all
  also have "\<dots> = exp (of_nat 50 * 1)" by (rule exp_of_nat_mult [symmetric])
  finally show ?thesis by simp
qed

lemma clip_value_50:
  assumes "x \<noteq> NaN"
  shows "\<exists>c. clip_value x (Fin (- 50)) (Fin 50) = Fin c \<and> - 50 \<le> c \<and> c \<le> 50"
  using assms by (cases x) (auto simp: clip_value_def isnan_def py_min_def py_max_def)


lemma math_exp_bounded:
  assumes "- 50 \<le> c" and "c \<le> 50"
  shows "math_exp (Fin (- c)) = Inr (Fin (round_real (exp (- c))))"
    and "0 \<le> round_real (exp (- c))" and "round_real (exp (- c)) \<le> pow2 80"
proof -
  have "exp (- c) \<le> exp 50" using assms by simp
  then have "exp (- c) \<le> pow2 80" using exp_50_le by (rule order_trans)
  then have b: "\<bar>exp (- c)\<bar> \<le> pow2 80" by simp
  from round_float_bounded [OF b] show "math_exp (Fin (- c)) = Inr (Fin (round_real (exp (- c))))"
    by simp
  show "0 \<le> round_real (exp (- c))" by (intro round_real_nonneg) simp
  from round_float_bounded(2) [OF b] show "round_real (exp (- c)) \<le> pow2 80" by simp
qed

lemma one_plus_bounded:
  assumes "0 \<le> r" and "r \<le> pow2 80"
  shows "fadd (Fin 1) (Fin r) = Fin (round_real (1 + r))"
    and "1 \<le> round_real (1 + r)" and "round_real (1 + r) \<le> pow2 81"
proof -
  have "1 + r \<le> pow2 80 + pow2 80" using assms by simp
  then have b: "\<bar>1 + r\<bar> \<le> pow2 81" using assms by simp
  from round_float_bounded [OF b] show "fadd (Fin 1) (Fin r) = Fin (round_real (1 + r))"
    by simp
  have "round_real 1 \<le> round_real (1 + r)" using assms by (intro round_real_mono) simp
  then show "1 \<le> round_real (1 + r)" by simp
  from round_float_bounded(2) [OF b] show "round_real (1 + r) \<le> pow2 81" by simp
qed

lemma one_over_bounded:
  assumes "1 \<le> s" and "s \<le> pow2 81"
  shows "fdiv (Fin 1) (Fin s) = Inr (Fin (round_real (1 / s)))"
    and "0 < round_real (1 / s)" and "round_real (1 / s) \<le> 1"
proof -
  have s: "0 < s" using assms by simp
  have le1: "1 / s \<le> 1" using assms by simp
  then have b: "\<bar>1 / s\<bar> \<le> pow2 0" using s by simp
  from round_float_bounded [OF b] s show "fdiv (Fin 1) (Fin s) = Inr (Fin (round_real (1 / s)))"
    by simp
  have "1 / pow2 81 \<le> 1 / s" using assms s by (intro divide_left_mono) simp_all
  moreover have "pow2 (- 1074) \<le> 1 / pow2 81" by simp
  ultimately have "pow2 (- 1074) \<le> 1 / s" by linarith
  then show "0 < round_real (1 / s)" by (rule round_real_pos)
  have "round_real (1 / s) \<le> round_real 1" using le1 by (rule round_real_mono)
  then show "round_real (1 / s) \<le> 1" by simp
qed

lemma logistic_value_clipped:
  assumes "clip_value x (Fin (- 50)) (Fin 50) = Fin c" and "- 50 \<le> c" and "c \<le> 50"
  shows "logistic_value x = Inr (Fin (logistic_real c))"
    and "0 < logistic_real c" and "logistic_real c \<le> 1"
proof -
  note e = math_exp_bounded [OF assms(2,3)]
  note p = one_plus_bounded [OF e(2,3)]
  note q = one_over_bounded [OF p(2,3)]
  show "logistic_value x = Inr (Fin (logistic_real c))"
    by (simp add: logistic_value_def assms(1) e(1) p(1) q(1) logistic_real_def
        del: math_exp.simps fadd.simps fdiv.simps)
  show "0 < logistic_real c" "logistic_real c \<le> 1"
    using q(2,3) by (simp_all add: logistic_real_def)
qed


lemma logistic_value_nonNaN:
  assumes "x \<noteq> NaN"
  shows "\<exists>y. logistic_value x = Inr (Fin y) \<and> 0 < y \<and> y \<le> 1"
proof -
  from clip_value_50 [OF assms] obtain c
    where c: "clip_value x (Fin (- 50)) (Fin 50) = Fin c" "- 50 \<le> c" "c \<le> 50"
    by blast
  from logistic_value_clipped [OF c] show ?thesis by blast
qed

lemma round_real_numeral [simp]:
  "(numeral n :: int) < 2 ^ 53 \<Longrightarrow> round_real (numeral n) = numeral n"
  by (simp add: round_real_double)

lemma round_real_half [simp]: "round_real (1 / 2) = 1 / 2"
  by (simp add: round_real_double)


lemma logistic_value_ge_50:
  assumes "py_le (Fin 50) x"
  shows "logistic_value x = logistic_value (Fin 50)"
proof -
  have "clip_value x (Fin (- 50)) (Fin 50) = Fin 50"
    using assms
    by (cases x) (auto simp: clip_value_def isnan_def py_min_def py_max_def py_le_def py_eq_def)
  moreover have "clip_value (Fin 50) (Fin (- 50)) (Fin 50) = Fin 50"
    by (simp add: clip_value_def isnan_def py_min_def py_max_def)
  ultimately show ?thesis by (simp add: logistic_value_def)
qed

lemma logistic_value_le_minus_50:
  assumes "py_le x (Fin (- 50))"
  shows "logistic_value x = logistic_value (Fin (- 50))"
proof -
  have "clip_value x (Fin (- 50)) (Fin 50) = Fin (- 50)"
    using assms
    by (cases x) (auto simp: clip_value_def isnan_def py_min_def py_max_def py_le_def py_eq_def)
  moreover have "clip_value (Fin (- 50)) (Fin (- 50)) (Fin 50) = Fin (- 50)"
    by (simp add: clip_value_def isnan_def py_min_def py_max_def)
  ultimately show ?thesis by (simp add: logistic_value_def)
qed


subsection \<open>Saturation of the logistic function, and rescaling without failure\<close>

lemma ulp_exponent_unit:
  assumes "1 \<le> x" and "x < 2"
  shows "ulp_exponent x = - 52"
proof -
  have "\<lfloor>log 2 \<bar>x\<bar>\<rfloor> = 0"
    using assms floor_log_eq_powr_iff [of "\<bar>x\<bar>" 2 0] by simp
  then show ?thesis by (simp add: ulp_exponent_def)
qed

lemma round_real_one_plus_tiny: "round_real (1 + pow2 (- 54)) = 1"
proof -
  define x :: real where "x = 1 + pow2 (- 54)"
  have u: "ulp_exponent x = - 52"
    by (rule ulp_exponent_unit) (simp_all add: x_def)
  have "round_real x = of_int (round_half_even (x / pow2 (- 52))) * pow2 (- 52)"
    by (simp only: round_real_def u)
  moreover have "round_half_even (x / pow2 (- 52)) = 2 ^ 52"
    by (rule rhe_eqI) (simp add: x_def)
  ultimately have "round_real x = 1" by simp
  then show ?thesis by (simp only: x_def)
qed

lemma logistic_real_50: "logistic_real 50 = 1"
proof -
  have "exp (- 50 :: real) = 1 / exp 50" by (simp add: exp_minus field_simps)
  also have "\<dots> \<le> 1 / pow2 54" using exp_50_ge by (intro divide_left_mono) simp_all
  also have "\<dots> = pow2 (- 54)" by simp
  finally have "round_real (exp (- 50)) \<le> round_real (pow2 (- 54))" by (rule round_real_mono)
  then have r: "round_real (exp (- 50)) \<le> pow2 (- 54)"
    using round_real_pow2 [of "- 54"] by simp
  have r0: "0 \<le> round_real (exp (- 50))" by (intro round_real_nonneg) simp
  have "round_real (1 + round_real (exp (- 50))) \<le> round_real (1 + pow2 (- 54))"
    using r by (intro round_real_mono) simp
  moreover have "round_real 1 \<le> round_real (1 + round_real (exp (- 50)))"
    using r0 by (intro round_real_mono) simp
  ultimately have "round_real (1 + round_real (exp (- 50))) = 1"
    using round_real_one_plus_tiny by simp
  then show ?thesis by (simp add: logistic_real_def)
qed

lemma logistic_value_50: "logistic_value (Fin 50) = Inr (Fin 1)"
proof -
  have "clip_value (Fin 50) (Fin (- 50)) (Fin 50) = Fin 50"
    by (simp add: clip_value_def isnan_def py_min_def py_max_def)
  from logistic_value_clipped(1) [OF this] show ?thesis by (simp add: logistic_real_50)
qed

lemma scale_value_no_raise:
  assumes "is_float old_min" and "is_float old_max" and "\<not> py_eq old_min old_max"
  shows "\<exists>s. scale_value value old_min old_max new_min new_max = Inr s"
proof -
  from assms(3) have "\<not> (old_max = old_min \<and> isfinite old_max)"
    by (cases old_max) (auto simp: py_eq_def)
  then have d: "fsub old_max old_min \<noteq> Fin 0"
    using assms(1,2) by (simp add: fsub_eq_0_iff)
  have "\<exists>q. fdiv n d = Inr q" if "d \<noteq> Fin 0" for n d
    using that by (cases n; cases d) auto
  from this [OF d] obtain q
    where "fdiv (fmul (fsub value old_min) (fsub new_max new_min)) (fsub old_max old_min) = Inr q"
    by blast
  then show ?thesis
    by (simp add: scale_value_def)
qed

subsection \<open>Logarithms of floats are finite\<close>










subsection \<open>A rounding tie\<close>





section \<open>The claims of the specification\<close>

subsection \<open>NaN propagation\<close>

text \<open>
  Claim C1, as stated, fails: \<^verbatim>\<open>PowerReward(0)([nan])\<close> is \<^verbatim>\<open>[1.0]\<close>, because \<^verbatim>\<open>nan ** 0\<close> is
  \<^verbatim>\<open>1.0\<close> in Python.
\<close>

theorem nan_counterexample:
  "call (PowerReward (Fin 0)) [NaN] = Inr [Flt (Fin 1)]"
  by (simp add: PowerReward_item_def float_pow_def)

text \<open>
  Claim C1, amended.  Applied to \<^verbatim>\<open>[NaN]\<close>, \<^verbatim>\<open>EqualReward\<close>, \<^verbatim>\<open>AbsoluteReward\<close>,
  \<^verbatim>\<open>NegatedReward\<close> and \<^verbatim>\<open>LogReward\<close> yield \<^verbatim>\<open>[NaN]\<close> for every choice of parameters;
  \<^verbatim>\<open>PowerReward\<close> yields \<^verbatim>\<open>[NaN]\<close> exactly when its exponent is not zero; each of the four
  variants that rescale between \<^verbatim>\<open>bad_value\<close> and \<^verbatim>\<open>good_value\<close> yields \<^verbatim>\<open>[NaN]\<close> exactly
  when the two thresholds are not the same finite number (when they are, the division in
  \<^verbatim>\<open>scale_value\<close> raises \<^verbatim>\<open>ZeroDivisionError\<close>).
\<close>

theorem nan_propagation:
  "call (EqualReward nonzero_value) [NaN] = Inr [Flt NaN]
   \<and> call AbsoluteReward [NaN] = Inr [Flt NaN]
   \<and> call NegatedReward [NaN] = Inr [Flt NaN]
   \<and> (call (PowerReward exponent) [NaN] = Inr [Flt NaN] \<longleftrightarrow> exponent \<noteq> Fin 0)
   \<and> call (LogReward offset) [NaN] = Inr [Flt NaN]
   \<and> (is_float bad_value \<and> is_float good_value \<longrightarrow>
        (call (LinearClippedReward bad_value good_value) [NaN] = Inr [Flt NaN]
           \<longleftrightarrow> \<not> (good_value = bad_value \<and> isfinite bad_value))
      \<and> (call (SoftPlusReward bad_value good_value sharpness) [NaN] = Inr [Flt NaN]
           \<longleftrightarrow> \<not> (good_value = bad_value \<and> isfinite bad_value))
      \<and> (call (NegExpReward bad_value good_value sharpness) [NaN] = Inr [Flt NaN]
           \<longleftrightarrow> \<not> (good_value = bad_value \<and> isfinite bad_value))
      \<and> (call (SigmoidReward bad_value good_value low_sharpness high_sharpness) [NaN]
           = Inr [Flt NaN] \<longleftrightarrow> \<not> (good_value = bad_value \<and> isfinite bad_value)))"
  by (auto simp: EqualReward_item_def AbsoluteReward_item_def NegatedReward_item_def
      PowerReward_item_def float_pow_def LogReward_item_def LinearClippedReward_item_def
      SoftPlusReward_item_def NegExpReward_item_def SigmoidReward_item_def
      scale_value_NaN logistic_value_NaN fsub_eq_0_iff clip_value_def isnan_def)

theorem nan_propagation_witness:
  "is_float (Fin 1) \<and> is_float (Fin 0)
   \<and> call (PowerReward (Fin 2)) [NaN] = Inr [Flt NaN]
   \<and> call (LinearClippedReward (Fin 1) (Fin 0)) [NaN] = Inr [Flt NaN]
   \<and> call (SoftPlusReward (Fin 1) (Fin 0) (Fin (- 3))) [NaN] = Inr [Flt NaN]
   \<and> call (NegExpReward (Fin 1) (Fin 0) (Fin 2)) [NaN] = Inr [Flt NaN]
   \<and> call (SigmoidReward (Fin 1) (Fin 0) (Fin (- 3)) (Fin 3)) [NaN] = Inr [Flt NaN]
   \<and> call (LinearClippedReward (Fin 1) (Fin 1)) [NaN] \<noteq> Inr [Flt NaN]"
proof -
  have h: "is_float (Fin 1) \<and> is_float (Fin 0)" by simp
  have e: "Fin 2 \<noteq> Fin 0" by simp
  have n: "\<not> (Fin 0 = Fin 1 \<and> isfinite (Fin 1))" by simp
  have h1: "is_float (Fin 1) \<and> is_float (Fin 1)" by simp
  have n1: "Fin 1 = Fin 1 \<and> isfinite (Fin 1)" by simp
  show ?thesis
    using h e n h1 n1
      nan_propagation [of "Fin 0" "Fin 2" "Fin 0" "Fin 1" "Fin 0" "Fin (- 3)" "Fin (- 3)" "Fin 3"]
      nan_propagation [of "Fin 0" "Fin 2" "Fin 0" "Fin 1" "Fin 0" "Fin 2" "Fin (- 3)" "Fin 3"]
      nan_propagation [of "Fin 0" "Fin 2" "Fin 0" "Fin 1" "Fin 1" "Fin 2" "Fin (- 3)" "Fin 3"]
    by blast
qed

subsection \<open>Transforms work element by element\<close>




subsection \<open>Clipping\<close>

text \<open>
  Claim C3.  For bounds with \<^verbatim>\<open>min_val <= max_val\<close>, \<^verbatim>\<open>clip_value\<close> returns a NaN value
  unchanged; a value between the bounds is returned itself, a value below \<^verbatim>\<open>min_val\<close> gives
  \<^verbatim>\<open>min_val\<close> and a value above \<^verbatim>\<open>max_val\<close> gives \<^verbatim>\<open>max_val\<close>.  The function has no failing
  path: it is a total function into the floats.
\<close>

theorem clip_value_spec:
  assumes "py_le min_val max_val"
  shows "clip_value NaN min_val max_val = NaN
    \<and> (py_le min_val v \<and> py_le v max_val \<longrightarrow> clip_value v min_val max_val = v)
    \<and> (py_lt v min_val \<longrightarrow> clip_value v min_val max_val = min_val)
    \<and> (py_lt max_val v \<longrightarrow> clip_value v min_val max_val = max_val)"
  using assms
  by (cases min_val; cases max_val; cases v)
     (auto simp: clip_value_def py_min_def py_max_def py_le_def py_eq_def isnan_def)

theorem clip_value_spec_witness:
  "py_le (Fin 0) (Fin 1)
    \<and> py_le (Fin 0) (Fin (1/2)) \<and> py_le (Fin (1/2)) (Fin 1)
    \<and> clip_value (Fin (1/2)) (Fin 0) (Fin 1) = Fin (1/2)
    \<and> py_lt (Fin (- 3)) (Fin 0) \<and> clip_value (Fin (- 3)) (Fin 0) (Fin 1) = Fin 0
    \<and> py_lt (Fin 1) PInf \<and> clip_value PInf (Fin 0) (Fin 1) = Fin 1
    \<and> clip_value NaN (Fin 0) (Fin 1) = NaN"
proof -
  have h: "py_le (Fin 0) (Fin 1)" by (simp add: py_le_def)
  have a: "py_le (Fin 0) (Fin (1/2)) \<and> py_le (Fin (1/2)) (Fin 1)" by (simp add: py_le_def)
  have b: "py_lt (Fin (- 3)) (Fin 0)" by simp
  have c: "py_lt (Fin 1) PInf" by simp
  show ?thesis
    using h a b c clip_value_spec [OF h, of "Fin (1/2)"] clip_value_spec [OF h, of "Fin (- 3)"]
      clip_value_spec [OF h, of PInf]
    by blast
qed

subsection \<open>The logistic function\<close>



subsection \<open>Rescaling at the endpoints\<close>




subsection \<open>The range of \<^verbatim>\<open>SigmoidReward\<close>\<close>

text \<open>
  Claim C6, as stated, fails: the output is not always strictly below 1.  With
  \<^verbatim>\<open>SigmoidReward(bad_value=0, good_value=1, low_sharpness=0, high_sharpness=50)\<close> the error
  \<^verbatim>\<open>1\<close> rescales to \<^verbatim>\<open>50\<close>, and \<^verbatim>\<open>1 + math.exp(-50)\<close> rounds to \<^verbatim>\<open>1.0\<close>, so the reward is exactly
  \<^verbatim>\<open>1.0\<close>.
\<close>

theorem sigmoid_counterexample:
  "call (SigmoidReward (Fin 0) (Fin 1) (Fin 0) (Fin 50)) [Fin 1] = Inr [Flt (Fin 1)]"
proof -
  have "scale_value (Fin 1) (Fin 0) (Fin 1) (Fin 0) (Fin 50) = Inr (Fin 50)"
    by (simp add: scale_value_def fsub_def)
  then show ?thesis
    by (simp add: SigmoidReward_item_def logistic_value_50)
qed

text \<open>
  Claim C6, amended.  For float thresholds with \<^verbatim>\<open>bad_value != good_value\<close> the rescaling
  does not fail, and whenever the rescaled value is not NaN the output element is a finite
  float \<open>y\<close> with \<open>0 < y \<le> 1\<close>: the bound comes from the logistic function alone, and the
  upper bound is attained.
\<close>

theorem sigmoid_range:
  assumes "is_float bad_value" and "is_float good_value" and "\<not> py_eq bad_value good_value"
  shows "\<exists>s. scale_value error bad_value good_value low_sharpness high_sharpness = Inr s
    \<and> (s \<noteq> NaN \<longrightarrow>
         (\<exists>y. call (SigmoidReward bad_value good_value low_sharpness high_sharpness) [error]
                 = Inr [Flt (Fin y)] \<and> 0 < y \<and> y \<le> 1))"
proof -
  from scale_value_no_raise [OF assms] obtain s
    where s: "scale_value error bad_value good_value low_sharpness high_sharpness = Inr s"
    by blast
  have "\<exists>y. call (SigmoidReward bad_value good_value low_sharpness high_sharpness) [error]
                 = Inr [Flt (Fin y)] \<and> 0 < y \<and> y \<le> 1" if "s \<noteq> NaN"
  proof -
    from logistic_value_nonNaN [OF that] obtain y
      where "logistic_value s = Inr (Fin y)" "0 < y" "y \<le> 1" by blast
    then show ?thesis by (simp add: SigmoidReward_item_def s)
  qed
  with s show ?thesis by blast
qed

theorem sigmoid_range_witness:
  "is_float (Fin 0) \<and> is_float (Fin 1) \<and> \<not> py_eq (Fin 0) (Fin 1)
   \<and> scale_value (Fin 1) (Fin 0) (Fin 1) (Fin 0) (Fin 50) = Inr (Fin 50) \<and> Fin 50 \<noteq> NaN
   \<and> (\<exists>y. call (SigmoidReward (Fin 0) (Fin 1) (Fin 0) (Fin 50)) [Fin 1] = Inr [Flt (Fin y)]
          \<and> 0 < y \<and> y \<le> 1)"
proof -
  have a: "is_float (Fin 0)" and b: "is_float (Fin 1)" and c: "\<not> py_eq (Fin 0) (Fin 1)"
    by (simp_all add: py_eq_def)
  have s: "scale_value (Fin 1) (Fin 0) (Fin 1) (Fin 0) (Fin 50) = Inr (Fin 50)"
    by (simp add: scale_value_def fsub_def)
  have n: "Fin 50 \<noteq> NaN" by simp
  show ?thesis
    using a b c s n sigmoid_range [OF a b c, of "Fin 1" "Fin 0" "Fin 50"]
    by force
qed

subsection \<open>\<^verbatim>\<open>LogReward\<close>\<close>




subsection \<open>Examples\<close>

text \<open>
  Claim C8.  \<^verbatim>\<open>LinearClippedReward(bad_value=1, good_value=0)\<close> applied to
  \<^verbatim>\<open>[1, 0, 0.5, 2]\<close> returns \<^verbatim>\<open>[0, 1, 0.5, 0]\<close>.
\<close>

theorem linear_clipped_example:
  "call (LinearClippedReward (Fin 1) (Fin 0)) [Fin 1, Fin 0, Fin (1 / 2), Fin 2]
     = Inr [Flt (Fin 0), Flt (Fin 1), Flt (Fin (1 / 2)), Flt (Fin 0)]"
  by (simp add: LinearClippedReward_item_def scale_value_def fsub_def clip_value_def
      isnan_def py_min_def py_max_def round_float_minus)

text \<open>
  Claim C9.  The claim that every returned element is a real number fails on the code:
  \<^verbatim>\<open>PowerReward(exponent=0.5)([-1.0])\<close> returns a list holding a complex number, although
  \<^verbatim>\<open>__call__\<close> is declared to return \<^verbatim>\<open>List[float]\<close>.
\<close>

theorem power_complex:
  "call (PowerReward (Fin (1 / 2))) [Fin (- 1)] = Inr [Cplx]"
  by (simp add: PowerReward_item_def float_pow_def finite_pow_def complex_pow_def)

text \<open>
  Claim C10.  \<^verbatim>\<open>logistic_value\<close> returns on every float: the exponential of the clamped
  argument never overflows; \<^verbatim>\<open>+inf\<close> gives the result of \<^verbatim>\<open>50\<close>, \<^verbatim>\<open>-inf\<close> the result of
  \<^verbatim>\<open>-50\<close>, and NaN gives NaN.
\<close>

theorem logistic_total:
  "(\<exists>y. logistic_value x = Inr y)
   \<and> (\<exists>r. math_exp (fneg (clip_value x (Fin (- 50)) (Fin 50))) = Inr r)
   \<and> logistic_value PInf = logistic_value (Fin 50)
   \<and> logistic_value NInf = logistic_value (Fin (- 50))
   \<and> logistic_value NaN = Inr NaN"
proof (intro conjI)
  show "\<exists>y. logistic_value x = Inr y"
    using logistic_value_nonNaN [of x] logistic_value_NaN by (cases "x = NaN") auto
  show "\<exists>r. math_exp (fneg (clip_value x (Fin (- 50)) (Fin 50))) = Inr r"
  proof (cases "x = NaN")
    case True
    then show ?thesis by (simp add: clip_value_def isnan_def)
  next
    case False
    from clip_value_50 [OF this] obtain c
      where c: "clip_value x (Fin (- 50)) (Fin 50) = Fin c" "- 50 \<le> c" "c \<le> 50"
      by blast
    from math_exp_bounded(1) [OF c(2,3)] show ?thesis
      by (simp add: c(1) del: math_exp.simps)
  qed
  show "logistic_value PInf = logistic_value (Fin 50)"
    by (rule logistic_value_ge_50) (simp add: py_le_def)
  show "logistic_value NInf = logistic_value (Fin (- 50))"
    by (rule logistic_value_le_minus_50) (simp add: py_le_def)
  show "logistic_value NaN = Inr NaN" by (rule logistic_value_NaN)
qed

end
